theory Spec2Isabelle
  imports Complex_Main "HOL-Library.Multiset"
begin

section \<open>The random anonymizer of speaker embeddings\<close>

text \<open>
  A shallow embedding of \<^verbatim>\<open>RandomAnonymizer\<close>
  (\<^verbatim>\<open>anonymization/modules/speaker_embeddings/anonymization/random_anon.py\<close>).
  Python exceptions are values of \<open>error\<close>; a function that can raise returns
  \<open>error + result\<close>. Everything the code mutates or reads from outside is explicit:
  the anonymizer object (\<open>self\<close>), the world (files, the log of opened paths, the random
  source, standard output, the compute devices) and the heap of list and batch objects.
  Tensor entries and JSON numbers are modelled as reals: rounding, infinities and NaN of
  floating point are outside the model.
\<close>

subsection \<open>Exceptions\<close>

datatype error =
    FileNotFoundError
  | JSONDecodeError
  | ValueError
  | KeyError
  | TypeError
  | AttributeError
  | RuntimeError

subsection \<open>Python's \<^verbatim>\<open>int(str)\<close>\<close>

text \<open>
  The sort key of the loader is \<^verbatim>\<open>int(x[0])\<close>. Python strips white space, reads an
  optional sign and then decimal digits, where single underscores may separate digits;
  anything else raises \<^verbatim>\<open>ValueError\<close> (here \<open>None\<close>). Keys are ASCII strings.
\<close>

definition is_space :: "char \<Rightarrow> bool" where
  "is_space c = ((of_char c :: nat) \<in> {9, 10, 11, 12, 13, 28, 29, 30, 31, 32})"

definition is_digit :: "char \<Rightarrow> bool" where
  "is_digit c = (48 \<le> (of_char c :: nat) \<and> (of_char c :: nat) \<le> 57)"

definition digit_val :: "char \<Rightarrow> nat" where
  "digit_val c = of_char c - 48"

definition strip :: "string \<Rightarrow> string" where
  "strip s = rev (dropWhile is_space (rev (dropWhile is_space s)))"

fun digits_value :: "nat \<Rightarrow> string \<Rightarrow> nat option" where
  "digits_value acc [] = Some acc"
| "digits_value acc (c # cs) =
     (if is_digit c then digits_value (10 * acc + digit_val c) cs
      else if c = CHR ''_'' then
        (case cs of
           [] \<Rightarrow> None
         | d # ds \<Rightarrow> if is_digit d then digits_value acc cs else None)
      else None)"

definition unsigned :: "string \<Rightarrow> nat option" where
  "unsigned ds =
     (case ds of
        [] \<Rightarrow> None
      | d # _ \<Rightarrow> if is_digit d then digits_value 0 ds else None)"

definition py_int :: "string \<Rightarrow> int option" where
  "py_int s =
     (case strip s of
        [] \<Rightarrow> None
      | c # cs \<Rightarrow>
          if c = CHR ''-'' then map_option (\<lambda>n. - int n) (unsigned cs)
          else if c = CHR ''+'' then map_option int (unsigned cs)
          else map_option int (unsigned (c # cs)))"

subsection \<open>The calibration file and the world\<close>

text \<open>
  One entry of the calibration file is an object such as \<^verbatim>\<open>{"min": 1, "max": 2}\<close>,
  here the association list of its fields. A file either is not JSON, or parses to a
  dictionary whose \<^verbatim>\<open>items()\<close>, in insertion order, are the list carried by
  \<open>JsonObject\<close>.
\<close>

type_synonym json_entry = "(string \<times> real) list"

type_synonym json_dict = "(string \<times> json_entry) list"

datatype file_content = NotJson | JsonObject json_dict

type_synonym ranges = "(real \<times> real) list"

text \<open>
  The world: the files by path, the paths opened so far (oldest first), the process-wide
  random source (the raw words it will produce and how many were consumed), the lines
  printed, and which compute devices can hold a tensor.
\<close>

record world =
  files :: "string \<Rightarrow> file_content option"
  opened :: "string list"
  gen :: "nat \<Rightarrow> nat"
  pos :: nat
  stdout :: "string list"
  available :: "string \<Rightarrow> bool"

subsection \<open>\<^verbatim>\<open>_load_scaling_ranges\<close>\<close>

definition json_load :: "file_content \<Rightarrow> error + json_dict" where
  "json_load c = (case c of NotJson \<Rightarrow> Inl JSONDecodeError | JsonObject d \<Rightarrow> Inr d)"

text \<open>\<^verbatim>\<open>v["min"]\<close>: a missing key raises \<^verbatim>\<open>KeyError\<close>.\<close>

definition getitem :: "json_entry \<Rightarrow> string \<Rightarrow> error + real" where
  "getitem v k = (case map_of v k of None \<Rightarrow> Inl KeyError | Some x \<Rightarrow> Inr x)"

text \<open>
  \<^verbatim>\<open>sorted(dim_ranges.items(), key=lambda x: int(x[0]))\<close>: Python computes the key of
  every item first (the first key that is no integer raises), then sorts the items by
  their keys with a stable sort.
\<close>

fun int_keys :: "(string \<times> 'v) list \<Rightarrow> error + (int \<times> string \<times> 'v) list" where
  "int_keys [] = Inr []"
| "int_keys ((k, v) # rest) =
     (case py_int k of
        None \<Rightarrow> Inl ValueError
      | Some n \<Rightarrow>
          (case int_keys rest of
             Inl e \<Rightarrow> Inl e
           | Inr ys \<Rightarrow> Inr ((n, k, v) # ys)))"

definition sorted_items :: "(string \<times> 'v) list \<Rightarrow> error + (string \<times> 'v) list" where
  "sorted_items items =
     (case int_keys items of
        Inl e \<Rightarrow> Inl e
      | Inr ys \<Rightarrow> Inr (map snd (sort_key fst ys)))"

text \<open>The comprehension \<^verbatim>\<open>[(v["min"], v["max"]) for k, v in ...]\<close>.\<close>

fun min_max_pairs :: "json_dict \<Rightarrow> error + ranges" where
  "min_max_pairs [] = Inr []"
| "min_max_pairs ((k, v) # rest) =
     (case getitem v ''min'' of
        Inl e \<Rightarrow> Inl e
      | Inr lo \<Rightarrow>
          (case getitem v ''max'' of
             Inl e \<Rightarrow> Inl e
           | Inr hi \<Rightarrow>
               (case min_max_pairs rest of
                  Inl e \<Rightarrow> Inl e
                | Inr ps \<Rightarrow> Inr ((lo, hi) # ps))))"

text \<open>
  \<^verbatim>\<open>_load_scaling_ranges\<close> (an Isabelle name cannot start with an underscore). The
  path argument is Python's \<^verbatim>\<open>None\<close> or a path; a successful \<^verbatim>\<open>open\<close> is logged.
\<close>

definition load_scaling_ranges :: "world \<Rightarrow> string option \<Rightarrow> error + (ranges \<times> world)" where
  "load_scaling_ranges w stats_per_dim_path =
     (let p = (case stats_per_dim_path of None \<Rightarrow> ''stats_per_dim.json'' | Some q \<Rightarrow> q) in
      case files w p of
        None \<Rightarrow> Inl FileNotFoundError
      | Some content \<Rightarrow>
          (let w' = w\<lparr>opened := opened w @ [p]\<rparr> in
           case json_load content of
             Inl e \<Rightarrow> Inl e
           | Inr dim_ranges \<Rightarrow>
               (case sorted_items dim_ranges of
                  Inl e \<Rightarrow> Inl e
                | Inr items \<Rightarrow>
                    (case min_max_pairs items of
                       Inl e \<Rightarrow> Inl e
                     | Inr rs \<Rightarrow> Inr (rs, w')))))"

subsection \<open>The anonymizer object\<close>

text \<open>
  The attribute \<^verbatim>\<open>_scaling_ranges\<close> may not exist at all (\<open>Unset\<close>: reading it raises
  \<^verbatim>\<open>AttributeError\<close>), hold \<^verbatim>\<open>None\<close>, or hold the loaded list.
\<close>

datatype attr = Unset | PyNone | Ranges ranges

record anonymizer =
  vec_type :: string
  device :: string
  model_name :: string
  stats_per_dim_path :: "string option"
  scaling_ranges_attr :: attr

text \<open>
  \<^verbatim>\<open>__init__\<close>. Modelled from the spec: the base class initialiser, which is not among
  the sources, stores \<open>vec_type\<close> and \<open>device\<close>. The constructor is given the world and
  hands it back: it opens no file.
\<close>

definition init ::
  "world \<Rightarrow> string \<Rightarrow> string \<Rightarrow> string option \<Rightarrow> bool \<Rightarrow> string option \<Rightarrow> anonymizer \<times> world"
where
  "init w dev vt mn in_scale path =
     (let name = (case mn of
                    None \<Rightarrow> ''random_'' @ vt
                  | Some m \<Rightarrow> if m \<noteq> [] then m else ''random_'' @ vt);
          base = \<lparr>vec_type = vt, device = dev, model_name = name,
                  stats_per_dim_path = None, scaling_ranges_attr = Unset\<rparr>
      in if in_scale then (base\<lparr>stats_per_dim_path := path\<rparr>, w)
         else (base\<lparr>stats_per_dim_path := None, scaling_ranges_attr := PyNone\<rparr>, w))"

text \<open>The property \<^verbatim>\<open>scaling_ranges\<close>; its value is \<^verbatim>\<open>None\<close> or a list.\<close>

definition scaling_ranges ::
  "anonymizer \<Rightarrow> world \<Rightarrow> error + (ranges option \<times> anonymizer \<times> world)"
where
  "scaling_ranges self w =
     (case (case stats_per_dim_path self of
              None \<Rightarrow> Inr (self, w)
            | Some p \<Rightarrow>
                (case load_scaling_ranges w (Some p) of
                   Inl e \<Rightarrow> Inl e
                 | Inr (rs, w') \<Rightarrow>
                     Inr (self\<lparr>scaling_ranges_attr := Ranges rs,
                                stats_per_dim_path := None\<rparr>, w'))) of
        Inl e \<Rightarrow> Inl e
      | Inr (self', w') \<Rightarrow>
          (case scaling_ranges_attr self' of
             Unset \<Rightarrow> Inl AttributeError
           | PyNone \<Rightarrow> Inr (None, self', w')
           | Ranges rs \<Rightarrow> Inr (Some rs, self', w')))"

subsection \<open>Batches of embeddings and the heap\<close>

text \<open>
  Modelled from the spec: the container class \<^verbatim>\<open>SpeakerEmbeddings\<close> is not among the
  sources. A batch is an ordered collection of (identifier, vector) pairs, which is what
  iterating over it yields, with the tags given to its constructor and the gender and
  speaker labels. The labels are list objects held by reference (\<^verbatim>\<open>None\<close> until
  \<^verbatim>\<open>set_vectors\<close> stores them), so that two batches can share them.
\<close>

type_synonym ref = nat

record speaker_embeddings =
  se_vec_type :: string
  se_device :: string
  se_emb_level :: string
  entries :: "(string \<times> real list) list"
  genders :: "ref option"
  original_speakers :: "ref option"

record heap =
  lists :: "ref \<Rightarrow> string list option"
  batches :: "ref \<Rightarrow> speaker_embeddings option"
  next_ref :: ref

text \<open>
  Modelled from the spec: the constructor takes \<open>vec_type\<close>, \<open>device\<close> and \<open>emb_level\<close>
  and allocates an empty batch. The value of \<open>emb_level\<close> when the caller passes none is
  the parameter \<open>dflt\<close>.
\<close>

definition SpeakerEmbeddings ::
  "string \<Rightarrow> string \<Rightarrow> string \<Rightarrow> string option \<Rightarrow> heap \<Rightarrow> ref \<times> heap"
where
  "SpeakerEmbeddings dflt vt dev emb_level h =
     (let r = next_ref h;
          obj = \<lparr>se_vec_type = vt, se_device = dev,
                 se_emb_level = (case emb_level of None \<Rightarrow> dflt | Some l \<Rightarrow> l),
                 entries = [], genders = None, original_speakers = None\<rparr>
      in (r, h\<lparr>batches := (batches h)(r \<mapsto> obj), next_ref := Suc r\<rparr>))"

text \<open>
  Modelled from the spec: the setter takes identifiers, stacked vectors, genders and
  speakers and materialises the batch. A reference that holds no batch has none of the
  attributes of one.
\<close>

definition set_vectors ::
  "ref \<Rightarrow> string list \<Rightarrow> real list list \<Rightarrow> ref option \<Rightarrow> ref option \<Rightarrow> heap \<Rightarrow> error + heap"
where
  "set_vectors r ids vs gs ss h =
     (case batches h r of
        None \<Rightarrow> Inl AttributeError
      | Some obj \<Rightarrow>
          Inr (h\<lparr>batches := (batches h)(r \<mapsto>
                 obj\<lparr>entries := zip ids vs, genders := gs, original_speakers := ss\<rparr>)\<rparr>))"

subsection \<open>Tensor operations and random draws\<close>

text \<open>\<^verbatim>\<open>torch.stack\<close> wants a non-empty list of tensors of one shape.\<close>

definition torch_stack :: "real list list \<Rightarrow> error + real list list" where
  "torch_stack ts =
     (case ts of
        [] \<Rightarrow> Inl RuntimeError
      | t # rest \<Rightarrow>
          if list_all (\<lambda>u. length u = length t) rest then Inr ts else Inl RuntimeError)"

text \<open>
  \<^verbatim>\<open>.to(self.device)\<close> fails on a device that is not there. The vectors of the input
  batch are taken to live on the device of the anonymizer, so that the product with the
  mask is defined.
\<close>

definition to_device :: "world \<Rightarrow> string \<Rightarrow> 'a \<Rightarrow> error + 'a" where
  "to_device w dev t = (if available w dev then Inr t else Inl RuntimeError)"

text \<open>
  \<^verbatim>\<open>random_(from, to)\<close> fills a tensor with integers of the half-open range: each is
  the next raw word of the random source, reduced modulo the width of the range and
  shifted by its lower end.
\<close>

definition random_from_to :: "int \<Rightarrow> int \<Rightarrow> world \<Rightarrow> int \<times> world" where
  "random_from_to lo hi w =
     (lo + int (gen w (pos w) mod nat (hi - lo)), w\<lparr>pos := Suc (pos w)\<rparr>)"

text \<open>\<^verbatim>\<open>torch.zeros(n).float().random_(-40, 40)\<close>\<close>

fun random_mask :: "nat \<Rightarrow> world \<Rightarrow> real list \<times> world" where
  "random_mask 0 w = ([], w)"
| "random_mask (Suc n) w =
     (case random_from_to (- 40) 40 w of
        (m, w1) \<Rightarrow>
          (case random_mask n w1 of
             (ms, w2) \<Rightarrow> (real_of_int m # ms, w2)))"

text \<open>
  \<^verbatim>\<open>np.random.uniform(low, high)\<close>: \<open>low + (high - low) * u\<close> for the next \<open>u\<close> of
  \<open>[0, 1)\<close>, an integer of 53 bits over \<open>2 ^ 53\<close>.
\<close>

definition uniform :: "real \<Rightarrow> real \<Rightarrow> world \<Rightarrow> real \<times> world" where
  "uniform lo hi w =
     (lo + (hi - lo) * (real (gen w (pos w) mod 2 ^ 53) / 2 ^ 53), w\<lparr>pos := Suc (pos w)\<rparr>)"

text \<open>\<^verbatim>\<open>[np.random.uniform(*dim_range) for dim_range in ...]\<close>\<close>

fun uniform_draws :: "ranges \<Rightarrow> world \<Rightarrow> real list \<times> world" where
  "uniform_draws [] w = ([], w)"
| "uniform_draws ((lo, hi) # rest) w =
     (case uniform lo hi w of
        (x, w1) \<Rightarrow>
          (case uniform_draws rest w1 of
             (xs, w2) \<Rightarrow> (x # xs, w2)))"

subsection \<open>\<^verbatim>\<open>_anonymize_data_in_scale\<close>\<close>

text \<open>
  The loop over the batch, with the two lists it appends to. Each round reads the
  property \<^verbatim>\<open>self.scaling_ranges\<close> again; iterating over \<^verbatim>\<open>None\<close> would raise
  \<^verbatim>\<open>TypeError\<close>. The vector of the batch is not used.
\<close>

fun in_scale_loop ::
  "(string \<times> real list) list \<Rightarrow> string list \<Rightarrow> real list list \<Rightarrow> anonymizer \<Rightarrow> world \<Rightarrow>
   error + (string list \<times> real list list \<times> anonymizer \<times> world)"
where
  "in_scale_loop [] identifiers anon_vectors self w = Inr (identifiers, anon_vectors, self, w)"
| "in_scale_loop ((identifier, vector) # rest) identifiers anon_vectors self w =
     (case scaling_ranges self w of
        Inl e \<Rightarrow> Inl e
      | Inr (None, self1, w1) \<Rightarrow> Inl TypeError
      | Inr (Some rs, self1, w1) \<Rightarrow>
          (case uniform_draws rs w1 of
             (xs, w2) \<Rightarrow>
               (case to_device w2 (device self1) xs of
                  Inl e \<Rightarrow> Inl e
                | Inr anon_vec \<Rightarrow>
                    in_scale_loop rest (identifiers @ [identifier])
                      (anon_vectors @ [anon_vec]) self1 w2)))"

text \<open>
  The new batch is constructed without \<open>emb_level\<close>; the stacking is evaluated after
  the construction and before \<^verbatim>\<open>set_vectors\<close> is called.
\<close>

definition anonymize_data_in_scale ::
  "string \<Rightarrow> anonymizer \<Rightarrow> ref \<Rightarrow> world \<Rightarrow> heap \<Rightarrow> error + (ref \<times> anonymizer \<times> world \<times> heap)"
where
  "anonymize_data_in_scale dflt self b w h =
     (case batches h b of
        None \<Rightarrow> Inl AttributeError
      | Some se \<Rightarrow>
          (case in_scale_loop (entries se) [] [] self w of
             Inl e \<Rightarrow> Inl e
           | Inr (identifiers, anon_vectors, self1, w1) \<Rightarrow>
               (case SpeakerEmbeddings dflt (vec_type self1) (device self1) None h of
                  (r, h1) \<Rightarrow>
                    (case torch_stack anon_vectors of
                       Inl e \<Rightarrow> Inl e
                     | Inr stacked \<Rightarrow>
                         (case set_vectors r identifiers stacked
                                 (genders se) (original_speakers se) h1 of
                            Inl e \<Rightarrow> Inl e
                          | Inr h2 \<Rightarrow> Inr (r, self1, w1, h2))))))"

subsection \<open>\<^verbatim>\<open>anonymize_embeddings\<close>\<close>

text \<open>Truth value of \<^verbatim>\<open>self.scaling_ranges\<close>: \<^verbatim>\<open>None\<close> and the empty list are false.\<close>

definition truthy :: "ranges option \<Rightarrow> bool" where
  "truthy r = (case r of None \<Rightarrow> False | Some rs \<Rightarrow> rs \<noteq> [])"

text \<open>The loop of the \<^verbatim>\<open>else\<close> branch: one mask per vector, multiplied element-wise.\<close>

fun mask_loop ::
  "string \<Rightarrow> (string \<times> real list) list \<Rightarrow> string list \<Rightarrow> real list list \<Rightarrow> world \<Rightarrow>
   error + (string list \<times> real list list \<times> world)"
where
  "mask_loop dev [] identifiers anon_vectors w = Inr (identifiers, anon_vectors, w)"
| "mask_loop dev ((identifier, vector) # rest) identifiers anon_vectors w =
     (case random_mask (length vector) w of
        (m, w1) \<Rightarrow>
          (case to_device w1 dev m of
             Inl e \<Rightarrow> Inl e
           | Inr mask_t \<Rightarrow>
               mask_loop dev rest (identifiers @ [identifier])
                 (anon_vectors @ [map2 (*) vector mask_t]) w1))"

text \<open>The \<^verbatim>\<open>else\<close> branch of \<^verbatim>\<open>anonymize_embeddings\<close>.\<close>

definition anonymize_by_mask ::
  "string \<Rightarrow> anonymizer \<Rightarrow> ref \<Rightarrow> string \<Rightarrow> world \<Rightarrow> heap \<Rightarrow>
   error + (ref \<times> anonymizer \<times> world \<times> heap)"
where
  "anonymize_by_mask dflt self b emb_level w h =
     (case batches h b of
        None \<Rightarrow> Inl AttributeError
      | Some se \<Rightarrow>
          (case mask_loop (device self) (entries se) [] [] w of
             Inl e \<Rightarrow> Inl e
           | Inr (identifiers, anon_vectors, w1) \<Rightarrow>
               (case SpeakerEmbeddings dflt (vec_type self) (device self) (Some emb_level) h of
                  (r, h1) \<Rightarrow>
                    (case torch_stack anon_vectors of
                       Inl e \<Rightarrow> Inl e
                     | Inr stacked \<Rightarrow>
                         (case set_vectors r identifiers stacked
                                 (genders se) (original_speakers se) h1 of
                            Inl e \<Rightarrow> Inl e
                          | Inr h2 \<Rightarrow> Inr (r, self, w1, h2))))))"

definition anonymize_embeddings ::
  "string \<Rightarrow> anonymizer \<Rightarrow> ref \<Rightarrow> string \<Rightarrow> world \<Rightarrow> heap \<Rightarrow>
   error + (ref \<times> anonymizer \<times> world \<times> heap)"
where
  "anonymize_embeddings dflt self b emb_level w h =
     (case scaling_ranges self w of
        Inl e \<Rightarrow> Inl e
      | Inr (r, self1, w1) \<Rightarrow>
          if truthy r then
            anonymize_data_in_scale dflt self1 b
              (w1\<lparr>stdout := stdout w1 @ [''Anonymize vectors in scale!'']\<rparr>) h
          else anonymize_by_mask dflt self1 b emb_level w1 h)"

section \<open>Preconditions and example inputs\<close>

text \<open>
  The input constraint of the spec on a batch: it is non-empty and every vector has the
  same number \<open>D\<close> of entries.
\<close>

definition valid_batch :: "nat \<Rightarrow> speaker_embeddings \<Rightarrow> bool" where
  "valid_batch D se = (entries se \<noteq> [] \<and> list_all (\<lambda>e. length (snd e) = D) (entries se))"

text \<open>The allocator hands out \<open>next_ref\<close>: no batch lives at or above it.\<close>

definition heap_ok :: "heap \<Rightarrow> bool" where
  "heap_ok h = (\<forall>a. next_ref h \<le> a \<longrightarrow> batches h a = None)"

text \<open>
  \<open>masked v v'\<close>: the vector \<open>v'\<close> is \<open>v\<close> multiplied element-wise by some mask of
  integers of the closed range from \<open>-40\<close> to \<open>39\<close>.
\<close>

definition masked :: "real list \<Rightarrow> real list \<Rightarrow> bool" where
  "masked v v' =
     (\<exists>m. length m = length v \<and> set m \<subseteq> real_of_int ` {- 40 .. 39} \<and> v' = map2 (*) v m)"

text \<open>The mapping of the spec's example for the loader, in file order.\<close>

definition spec_example :: json_dict where
  "spec_example =
     [(''10'', [(''min'', 1), (''max'', 2)]), (''2'', [(''min'', 3), (''max'', 4)])]"

text \<open>A world whose only file is \<^verbatim>\<open>stats.json\<close>, holding that mapping.\<close>

definition example_world :: world where
  "example_world =
     \<lparr>files = (\<lambda>p. if p = ''stats.json'' then Some (JsonObject spec_example) else None),
      opened = [], gen = (\<lambda>n. 7 * n + 3), pos = 0, stdout = [],
      available = (\<lambda>d. d = ''cpu'')\<rparr>"

text \<open>A world whose only file is \<^verbatim>\<open>stats_per_dim.json\<close>, with one dimension.\<close>

definition default_world :: world where
  "default_world =
     \<lparr>files = (\<lambda>p. if p = ''stats_per_dim.json''
                    then Some (JsonObject [(''0'', [(''min'', 0), (''max'', 1)])]) else None),
      opened = [], gen = (\<lambda>n. 7 * n + 3), pos = 0, stdout = [],
      available = (\<lambda>d. d = ''cpu'')\<rparr>"

text \<open>
  A heap with the gender labels at 0, the speaker labels at 1 and, at 2, a batch of two
  vectors of three entries.
\<close>

definition example_batch :: speaker_embeddings where
  "example_batch =
     \<lparr>se_vec_type = ''xvector'', se_device = ''cpu'', se_emb_level = ''spk'',
      entries = [(''a'', [1, 2, 3]), (''b'', [4, 5, 6])],
      genders = Some 0, original_speakers = Some 1\<rparr>"

definition example_heap :: heap where
  "example_heap =
     \<lparr>lists = (\<lambda>r. if r = 0 then Some [''F'', ''M'']
                    else if r = 1 then Some [''s1'', ''s2''] else None),
      batches = (\<lambda>r. if r = 2 then Some example_batch else None),
      next_ref = 3\<rparr>"

text \<open>
  The batch a call returned, read from the heap it returned, and the numbers of entries
  of the vectors of a batch.
\<close>

definition result_batch ::
  "error + (ref \<times> anonymizer \<times> world \<times> heap) \<Rightarrow> speaker_embeddings option"
where
  "result_batch res = (case res of Inl e \<Rightarrow> None | Inr (a, self', w', h') \<Rightarrow> batches h' a)"

definition dims :: "speaker_embeddings \<Rightarrow> nat list" where
  "dims se = map (\<lambda>e. length (snd e)) (entries se)"

text \<open>The anonymizers of the examples: masking mode, and calibrated mode on a file.\<close>

definition masking_anonymizer :: anonymizer where
  "masking_anonymizer = fst (init example_world ''cpu'' ''xvector'' None False None)"

definition calibrated_anonymizer :: "string \<Rightarrow> anonymizer" where
  "calibrated_anonymizer path = fst (init example_world ''cpu'' ''xvector'' None True (Some path))"

section \<open>The loader and the lazy property\<close>

lemma py_int_10: "py_int ''10'' = Some 10"
  by (simp add: py_int_def strip_def is_space_def unsigned_def is_digit_def digit_val_def)

lemma py_int_2: "py_int ''2'' = Some 2"
  by (simp add: py_int_def strip_def is_space_def unsigned_def is_digit_def digit_val_def)

lemma py_int_0: "py_int ''0'' = Some 0"
  by (simp add: py_int_def strip_def is_space_def unsigned_def is_digit_def digit_val_def)

lemma sorted_items_example:
  "sorted_items spec_example =
     Inr [(''2'', [(''min'', 3), (''max'', 4)]), (''10'', [(''min'', 1), (''max'', 2)])]"
  by (simp add: sorted_items_def spec_example_def py_int_10 py_int_2)

lemma load_example:
  "files w p = Some (JsonObject spec_example) \<Longrightarrow>
   load_scaling_ranges w (Some p) = Inr ([(3, 4), (1, 2)], w\<lparr>opened := opened w @ [p]\<rparr>)"
  by (simp add: load_scaling_ranges_def json_load_def sorted_items_example getitem_def)

lemma int_keys_Inr:
  "int_keys items = Inr ys \<Longrightarrow>
   map snd ys = items \<and> list_all (\<lambda>y. py_int (fst (snd y)) = Some (fst y)) ys"
  by (induction items arbitrary: ys) (auto split: option.splits sum.splits)

lemma min_max_pairs_Inr:
  "min_max_pairs items = Inr rs \<Longrightarrow>
   list_all2 (\<lambda>kv r. map_of (snd kv) ''min'' = Some (fst r) \<and>
                      map_of (snd kv) ''max'' = Some (snd r)) items rs"
  by (induction items arbitrary: rs) (auto simp: getitem_def split: option.splits sum.splits)

text \<open>
  What \<^verbatim>\<open>sorted\<close> returns: the same items, their integer keys ascending, and items of
  equal key in their order of the file.
\<close>

lemma sorted_items_Inr:
  assumes "sorted_items items = Inr zs"
  shows "\<exists>ns. mset zs = mset items
     \<and> list_all2 (\<lambda>kv n. py_int (fst kv) = Some n) zs ns \<and> sorted ns
     \<and> (\<forall>n. filter (\<lambda>kv. py_int (fst kv) = Some n) zs =
             filter (\<lambda>kv. py_int (fst kv) = Some n) items)"
proof -
  from assms obtain ys where ys: "int_keys items = Inr ys"
    and zs: "zs = map snd (sort_key fst ys)"
    by (auto simp: sorted_items_def split: sum.splits)
  let ?ss = "sort_key fst ys"
  from int_keys_Inr[OF ys] have items: "map snd ys = items"
    and keys: "list_all (\<lambda>y. py_int (fst (snd y)) = Some (fst y)) ys" by auto
  have m: "mset zs = mset items"
  proof -
    have "mset zs = image_mset snd (mset ?ss)" by (simp add: zs)
    also have "\<dots> = image_mset snd (mset ys)" by simp
    also have "\<dots> = mset items" using items by (metis mset_map)
    finally show ?thesis .
  qed
  have keys': "\<forall>y\<in>set ?ss. py_int (fst (snd y)) = Some (fst y)"
    using keys by (simp add: list_all_iff)
  have l: "list_all2 (\<lambda>kv n. py_int (fst kv) = Some n) zs (map fst ?ss)"
    unfolding zs using keys' by (simp add: list_all2_map1 list_all2_map2 list_all2_same)
  have s: "sorted (map fst ?ss)" by simp
  have st: "filter (\<lambda>kv. py_int (fst kv) = Some n) zs =
            filter (\<lambda>kv. py_int (fst kv) = Some n) items" for n
  proof -
    have "filter (\<lambda>kv. py_int (fst kv) = Some n) zs =
          map snd (filter (\<lambda>y. py_int (fst (snd y)) = Some n) ?ss)"
      by (simp add: zs filter_map comp_def)
    also have "filter (\<lambda>y. py_int (fst (snd y)) = Some n) ?ss = filter (\<lambda>y. fst y = n) ?ss"
      using keys' by (intro filter_cong) auto
    also have "\<dots> = filter (\<lambda>y. fst y = n) ys" by (rule sort_key_stable)
    also have "\<dots> = filter (\<lambda>y. py_int (fst (snd y)) = Some n) ys"
      using keys by (intro filter_cong) (auto simp: list_all_iff)
    also have "map snd \<dots> = filter (\<lambda>kv. py_int (fst kv) = Some n) (map snd ys)"
      by (simp add: filter_map comp_def)
    finally show ?thesis using items by simp
  qed
  from m l s st show ?thesis by blast
qed

lemma load_scaling_ranges_opened:
  "load_scaling_ranges w q = Inr (rs, w') \<Longrightarrow>
   w' = w\<lparr>opened := opened w @ [case q of None \<Rightarrow> ''stats_per_dim.json'' | Some p \<Rightarrow> p]\<rparr>"
  by (auto simp: load_scaling_ranges_def Let_def split: option.splits sum.splits)

lemma scaling_ranges_cached:
  "stats_per_dim_path self = None \<Longrightarrow> scaling_ranges_attr self = Ranges rs \<Longrightarrow>
   scaling_ranges self w = Inr (Some rs, self, w)"
  by (simp add: scaling_ranges_def)

lemma scaling_ranges_pending:
  "stats_per_dim_path self = Some p \<Longrightarrow> load_scaling_ranges w (Some p) = Inr (rs, w1) \<Longrightarrow>
   scaling_ranges self w =
     Inr (Some rs, self\<lparr>scaling_ranges_attr := Ranges rs, stats_per_dim_path := None\<rparr>, w1)"
  by (simp add: scaling_ranges_def)

text \<open>
  Claim C6. The loader returns the (min, max) pairs of the file's entries in the
  ascending order of the integer value of their keys, the keys dropped: the pairs are
  those of a rearrangement of the items whose integer keys are sorted (items of equal key
  keep the order of the file). For the mapping
  \<^verbatim>\<open>{"10": {"min":1,"max":2}, "2": {"min":3,"max":4}}\<close> it returns
  \<^verbatim>\<open>[(3,4), (1,2)]\<close>, where the order of the strings would put \<^verbatim>\<open>"10"\<close> first.
\<close>

theorem load_scaling_ranges_numeric_order:
  "(\<forall>w p items rs w'.
      files w p = Some (JsonObject items) \<and> load_scaling_ranges w (Some p) = Inr (rs, w') \<longrightarrow>
      (\<exists>zs ns. mset zs = mset items
         \<and> list_all2 (\<lambda>kv n. py_int (fst kv) = Some n) zs ns \<and> sorted ns
         \<and> (\<forall>n. filter (\<lambda>kv. py_int (fst kv) = Some n) zs =
                 filter (\<lambda>kv. py_int (fst kv) = Some n) items)
         \<and> list_all2 (\<lambda>kv r. map_of (snd kv) ''min'' = Some (fst r) \<and>
                              map_of (snd kv) ''max'' = Some (snd r)) zs rs))
   \<and> (\<forall>w p. files w p = Some (JsonObject spec_example) \<longrightarrow>
        load_scaling_ranges w (Some p) = Inr ([(3, 4), (1, 2)], w\<lparr>opened := opened w @ [p]\<rparr>))"
proof (intro conjI allI impI)
  fix w :: world and p items rs w'
  assume a: "files w p = Some (JsonObject items) \<and>
             load_scaling_ranges w (Some p) = Inr (rs, w')"
  then obtain zs where zs: "sorted_items items = Inr zs" and rs: "min_max_pairs zs = Inr rs"
    by (auto simp: load_scaling_ranges_def json_load_def Let_def split: sum.splits)
  from sorted_items_Inr[OF zs] min_max_pairs_Inr[OF rs]
  show "\<exists>zs ns. mset zs = mset items
         \<and> list_all2 (\<lambda>kv n. py_int (fst kv) = Some n) zs ns \<and> sorted ns
         \<and> (\<forall>n. filter (\<lambda>kv. py_int (fst kv) = Some n) zs =
                 filter (\<lambda>kv. py_int (fst kv) = Some n) items)
         \<and> list_all2 (\<lambda>kv r. map_of (snd kv) ''min'' = Some (fst r) \<and>
                              map_of (snd kv) ''max'' = Some (snd r)) zs rs"
    by blast
next
  fix w :: world and p
  assume "files w p = Some (JsonObject spec_example)"
  then show "load_scaling_ranges w (Some p) =
             Inr ([(3, 4), (1, 2)], w\<lparr>opened := opened w @ [p]\<rparr>)"
    by (rule load_example)
qed

theorem load_scaling_ranges_numeric_order_witness:
  "files example_world ''stats.json'' = Some (JsonObject spec_example)
   \<and> load_scaling_ranges example_world (Some ''stats.json'') =
       Inr ([(3, 4), (1, 2)], example_world\<lparr>opened := [''stats.json'']\<rparr>)
   \<and> (\<exists>zs ns. mset zs = mset spec_example
         \<and> list_all2 (\<lambda>kv n. py_int (fst kv) = Some n) zs ns \<and> sorted ns
         \<and> list_all2 (\<lambda>kv r. map_of (snd kv) ''min'' = Some (fst r) \<and>
                              map_of (snd kv) ''max'' = Some (snd r)) zs [(3, 4), (1, 2)])"
proof -
  have f: "files example_world ''stats.json'' = Some (JsonObject spec_example)"
    by (simp add: example_world_def)
  have l: "load_scaling_ranges example_world (Some ''stats.json'') =
           Inr ([(3, 4), (1, 2)], example_world\<lparr>opened := [''stats.json'']\<rparr>)"
    using load_scaling_ranges_numeric_order[THEN conjunct2, rule_format, OF f]
    by (simp add: example_world_def)
  from load_scaling_ranges_numeric_order[THEN conjunct1, rule_format, OF conjI[OF f l]] f l
  show ?thesis by blast
qed

text \<open>
  Claim C5. Constructing a calibrated-mode anonymizer opens no file and leaves the path
  pending. Where the file at the pending path loads, the first read of
  \<^verbatim>\<open>scaling_ranges\<close> opens exactly that one file, stores the ranges, clears the pending
  path and returns the ranges; every later read, in any world, returns the stored ranges
  and changes neither the object nor the world, so no file is opened again.
\<close>

theorem scaling_ranges_loaded_once:
  assumes "load_scaling_ranges w (Some p) = Inr (rs, w1)"
      and "init w dev vt mn True (Some p) = (self, w0)"
  shows "w0 = w \<and> stats_per_dim_path self = Some p \<and> scaling_ranges_attr self = Unset
     \<and> opened w1 = opened w @ [p]
     \<and> (\<exists>self1. scaling_ranges self w = Inr (Some rs, self1, w1)
          \<and> stats_per_dim_path self1 = None \<and> scaling_ranges_attr self1 = Ranges rs
          \<and> (\<forall>w2. scaling_ranges self1 w2 = Inr (Some rs, self1, w2)))"
proof -
  from assms(2) have s: "w0 = w" "stats_per_dim_path self = Some p"
    "scaling_ranges_attr self = Unset"
    by (auto simp: init_def Let_def)
  from load_scaling_ranges_opened[OF assms(1)] have o: "opened w1 = opened w @ [p]" by simp
  let ?self1 = "self\<lparr>scaling_ranges_attr := Ranges rs, stats_per_dim_path := None\<rparr>"
  have r: "scaling_ranges self w = Inr (Some rs, ?self1, w1)"
    using s(2) assms(1) by (rule scaling_ranges_pending)
  have c: "scaling_ranges ?self1 w2 = Inr (Some rs, ?self1, w2)" for w2
    by (rule scaling_ranges_cached) simp_all
  from s o r c show ?thesis by auto
qed

theorem scaling_ranges_loaded_once_witness:
  "\<exists>self1.
     scaling_ranges (fst (init example_world ''cpu'' ''xvector'' None True (Some ''stats.json'')))
       example_world =
       Inr (Some [(3, 4), (1, 2)], self1, example_world\<lparr>opened := [''stats.json'']\<rparr>)
     \<and> stats_per_dim_path self1 = None
     \<and> (\<forall>w2. scaling_ranges self1 w2 = Inr (Some [(3, 4), (1, 2)], self1, w2))"
proof -
  have l: "load_scaling_ranges example_world (Some ''stats.json'') =
           Inr ([(3, 4), (1, 2)], example_world\<lparr>opened := [''stats.json'']\<rparr>)"
    using load_example[of example_world "''stats.json''"] by (simp add: example_world_def)
  from scaling_ranges_loaded_once[OF l surjective_pairing]
  show ?thesis by blast
qed

text \<open>
  Claim C10. The constructor leaves the attribute \<^verbatim>\<open>_scaling_ranges\<close> unset in
  calibrated mode and sets it to \<^verbatim>\<open>None\<close> otherwise. Constructed with
  \<^verbatim>\<open>in_scale=True\<close> and no path, the object has no pending path, so the loader is not
  called, and every read of \<^verbatim>\<open>scaling_ranges\<close>, hence every call of
  \<^verbatim>\<open>anonymize_embeddings\<close>, raises \<^verbatim>\<open>AttributeError\<close>, whatever the world holds.
\<close>

theorem in_scale_without_path_raises:
  "scaling_ranges_attr (fst (init w0 dev vt mn in_scale path)) =
     (if in_scale then Unset else PyNone)
   \<and> scaling_ranges (fst (init w0 dev vt mn True None)) w = Inl AttributeError
   \<and> anonymize_embeddings dflt (fst (init w0 dev vt mn True None)) b lvl w h =
       Inl AttributeError"
  by (simp add: init_def scaling_ranges_def anonymize_embeddings_def Let_def)

text \<open>
  Claim C8. The loader itself, called without a path, reads \<^verbatim>\<open>stats_per_dim.json\<close>;
  but the property calls the loader only for a pending path. In a world where that file
  is present and well-formed, an anonymizer constructed in calibrated mode without a
  path raises \<^verbatim>\<open>AttributeError\<close> on reading \<^verbatim>\<open>scaling_ranges\<close>: the default file is not
  reached through the property.
\<close>

theorem default_stats_file_unreachable:
  "load_scaling_ranges default_world None =
     Inr ([(0, 1)], default_world\<lparr>opened := [''stats_per_dim.json'']\<rparr>)
   \<and> scaling_ranges (fst (init default_world ''cpu'' ''xvector'' None True None)) default_world =
       Inl AttributeError"
  by (simp add: load_scaling_ranges_def json_load_def sorted_items_def py_int_0 getitem_def
      default_world_def init_def scaling_ranges_def Let_def)

section \<open>Random draws and the two loops\<close>

lemma random_from_to_mask:
  "random_from_to (- 40) 40 w = (m, w1) \<Longrightarrow> - 40 \<le> m \<and> m \<le> 39 \<and> w1 = w\<lparr>pos := Suc (pos w)\<rparr>"
  by (auto simp: random_from_to_def) 

lemma random_mask_props:
  "random_mask n w = (ms, w') \<Longrightarrow>
   length ms = n \<and> set ms \<subseteq> real_of_int ` {- 40 .. 39} \<and> w' = w\<lparr>pos := pos w + n\<rparr>"
proof (induction n arbitrary: w ms w')
  case 0
  then show ?case by simp
next
  case (Suc n)
  obtain m w1 where d: "random_from_to (- 40) 40 w = (m, w1)" by (cases "random_from_to (- 40) 40 w")
  obtain ms1 w2 where r: "random_mask n w1 = (ms1, w2)" by (cases "random_mask n w1")
  from Suc.prems d r have eq: "ms = real_of_int m # ms1" "w' = w2" by simp_all
  from random_from_to_mask[OF d] have m: "m \<in> {- 40 .. 39}" and w1: "w1 = w\<lparr>pos := Suc (pos w)\<rparr>" by auto
  from Suc.IH[OF r] have ih: "length ms1 = n" "set ms1 \<subseteq> real_of_int ` {- 40 .. 39}" "w2 = w1\<lparr>pos := pos w1 + n\<rparr>"
    by auto
  show ?case using eq m w1 ih by auto
qed

lemma uniform_draws_props:
  "uniform_draws rs w = (xs, w') \<Longrightarrow> length xs = length rs \<and> w' = w\<lparr>pos := pos w + length rs\<rparr>"
proof (induction rs arbitrary: w xs w')
  case Nil
  then show ?case by simp
next
  case (Cons r rs)
  obtain lo hi where r: "r = (lo, hi)" by (cases r)
  obtain xs1 w2 where u: "uniform_draws rs (w\<lparr>pos := Suc (pos w)\<rparr>) = (xs1, w2)"
    by (cases "uniform_draws rs (w\<lparr>pos := Suc (pos w)\<rparr>)")
  from Cons.prems r u have "xs = (lo + (hi - lo) * (real (gen w (pos w) mod 2 ^ 53) / 2 ^ 53)) # xs1" "w' = w2"
    by (simp_all add: uniform_def)
  with Cons.IH[OF u] show ?case by simp
qed

lemma mask_loop_Inr:
  "mask_loop dev es ids vs w = Inr (ids', vs', w') \<Longrightarrow>
   ids' = ids @ map fst es \<and>
   (\<exists>ms. vs' = vs @ ms \<and> list_all2 masked (map snd es) ms) \<and>
   w' = w\<lparr>pos := pos w + sum_list (map (\<lambda>e. length (snd e)) es)\<rparr> \<and> (es \<noteq> [] \<longrightarrow> available w dev)"
proof (induction es arbitrary: ids vs w)
  case Nil
  then show ?case by simp
next
  case (Cons e es)
  obtain i v where e: "e = (i, v)" by (cases e)
  obtain m w1 where rm: "random_mask (length v) w = (m, w1)" by (cases "random_mask (length v) w")
  from random_mask_props[OF rm] have m: "length m = length v" "set m \<subseteq> real_of_int ` {- 40 .. 39}"
    and w1: "w1 = w\<lparr>pos := pos w + length v\<rparr>" by auto
  from Cons.prems e rm have av: "available w1 dev"
    by (auto simp: to_device_def split: if_splits)
  with Cons.prems e rm have rec: "mask_loop dev es (ids @ [i]) (vs @ [map2 (*) v m]) w1 = Inr (ids', vs', w')"
    by (simp add: to_device_def)
  from Cons.IH[OF rec] have ih1: "ids' = (ids @ [i]) @ map fst es"
    and ih3: "w' = w1\<lparr>pos := pos w1 + sum_list (map (\<lambda>e. length (snd e)) es)\<rparr>"
    and ex: "\<exists>ms. vs' = (vs @ [map2 (*) v m]) @ ms \<and> list_all2 masked (map snd es) ms"
    by blast+
  from ex obtain ms where ih2: "vs' = (vs @ [map2 (*) v m]) @ ms" "list_all2 masked (map snd es) ms"
    by blast
  have mk: "masked v (map2 (*) v m)" unfolding masked_def using m by blast
  have "vs' = vs @ (map2 (*) v m # ms) \<and> list_all2 masked (map snd (e # es)) (map2 (*) v m # ms)"
    using ih2 mk e by simp
  then have "\<exists>ms. vs' = vs @ ms \<and> list_all2 masked (map snd (e # es)) ms" by blast
  moreover have "w' = w\<lparr>pos := pos w + sum_list (map (\<lambda>e. length (snd e)) (e # es))\<rparr>"
    using ih3 w1 e by (simp add: add.assoc)
  moreover have "available w dev" using av w1 by simp
  ultimately show ?case using ih1 e by simp
qed

lemma mask_loop_returns:
  "available w dev \<Longrightarrow> \<exists>ids' vs' w'. mask_loop dev es ids vs w = Inr (ids', vs', w')"
proof (induction es arbitrary: ids vs w)
  case Nil
  then show ?case by simp
next
  case (Cons e es)
  obtain i v where e: "e = (i, v)" by (cases e)
  obtain m w1 where rm: "random_mask (length v) w = (m, w1)" by (cases "random_mask (length v) w")
  from random_mask_props[OF rm] Cons.prems have av: "available w1 dev" by simp
  from Cons.IH[OF av] show ?case using e rm av by (simp add: to_device_def)
qed

lemma scaling_ranges_Inr:
  "scaling_ranges self w = Inr (r, self1, w1) \<Longrightarrow>
   stats_per_dim_path self1 = None \<and>
   scaling_ranges_attr self1 = (case r of None \<Rightarrow> PyNone | Some rs \<Rightarrow> Ranges rs) \<and>
   device self1 = device self \<and> vec_type self1 = vec_type self \<and>
   available w1 = available w"
  by (auto simp: scaling_ranges_def load_scaling_ranges_def Let_def
      split: option.splits sum.splits attr.splits)

lemma in_scale_loop_Inr:
  assumes "stats_per_dim_path self = None" "scaling_ranges_attr self = Ranges rs"
  shows "in_scale_loop es ids vs self w = Inr (ids', vs', self', w') \<Longrightarrow>
   ids' = ids @ map fst es \<and> self' = self \<and>
   (\<exists>ns. vs' = vs @ ns \<and> length ns = length es \<and> list_all (\<lambda>v. length v = length rs) ns) \<and>
   w' = w\<lparr>pos := pos w + length es * length rs\<rparr>"
proof (induction es arbitrary: ids vs w)
  case Nil
  then show ?case by simp
next
  case (Cons e es)
  obtain i v where e: "e = (i, v)" by (cases e)
  have sr: "scaling_ranges self w = Inr (Some rs, self, w)"
    using assms by (rule scaling_ranges_cached)
  obtain xs w2 where u: "uniform_draws rs w = (xs, w2)" by (cases "uniform_draws rs w")
  from uniform_draws_props[OF u] have xs: "length xs = length rs"
    and w2: "w2 = w\<lparr>pos := pos w + length rs\<rparr>" by auto
  from Cons.prems e sr u have rec: "in_scale_loop es (ids @ [i]) (vs @ [xs]) self w2 = Inr (ids', vs', self', w')"
    by (simp add: to_device_def split: if_splits)
  from Cons.IH[OF rec] have ih1: "ids' = (ids @ [i]) @ map fst es" "self' = self"
    and ih3: "w' = w2\<lparr>pos := pos w2 + length es * length rs\<rparr>"
    and ex: "\<exists>ns. vs' = (vs @ [xs]) @ ns \<and> length ns = length es \<and> list_all (\<lambda>v. length v = length rs) ns"
    by blast+
  from ex obtain ns where ns: "vs' = (vs @ [xs]) @ ns" "length ns = length es"
    "list_all (\<lambda>v. length v = length rs) ns" by blast
  have "vs' = vs @ (xs # ns) \<and> length (xs # ns) = length (e # es) \<and>
        list_all (\<lambda>v. length v = length rs) (xs # ns)"
    using ns xs by simp
  then have "\<exists>ns. vs' = vs @ ns \<and> length ns = length (e # es) \<and>
        list_all (\<lambda>v. length v = length rs) ns" by blast
  moreover have "w' = w\<lparr>pos := pos w + length (e # es) * length rs\<rparr>"
    using ih3 w2 by (simp add: add.assoc add.commute)
  ultimately show ?case using ih1 e by simp
qed

lemma in_scale_loop_returns:
  assumes "stats_per_dim_path self = None" "scaling_ranges_attr self = Ranges rs"
    and "available w (device self)"
  shows "\<exists>ids' vs' self' w'. in_scale_loop es ids vs self w = Inr (ids', vs', self', w')"
  using assms(3)
proof (induction es arbitrary: ids vs w)
  case Nil
  then show ?case by simp
next
  case (Cons e es)
  obtain i v where e: "e = (i, v)" by (cases e)
  have sr: "scaling_ranges self w = Inr (Some rs, self, w)"
    using assms(1,2) by (rule scaling_ranges_cached)
  obtain xs w2 where u: "uniform_draws rs w = (xs, w2)" by (cases "uniform_draws rs w")
  from uniform_draws_props[OF u] Cons.prems have av: "available w2 (device self)" by simp
  from Cons.IH[OF av] show ?case using e sr u av by (simp add: to_device_def)
qed

lemma torch_stack_Inr: "torch_stack ts = Inr s \<Longrightarrow> s = ts \<and> ts \<noteq> []"
  by (auto simp: torch_stack_def split: list.splits if_splits)

lemma torch_stack_uniform:
  "ts \<noteq> [] \<Longrightarrow> list_all (\<lambda>t. length t = D) ts \<Longrightarrow> torch_stack ts = Inr ts"
  by (cases ts) (auto simp: torch_stack_def list_all_iff)

lemma masked_length: "masked v v' \<Longrightarrow> length v' = length v"
  by (auto simp: masked_def)

lemma list_all2_masked_uniform:
  "list_all2 masked vs ms \<Longrightarrow> list_all (\<lambda>v. length v = D) vs \<Longrightarrow> list_all (\<lambda>v. length v = D) ms"
  by (induction rule: list_all2_induct) (auto simp: masked_length)

text \<open>What a call of the \<^verbatim>\<open>else\<close> branch that returns has done.\<close>

lemma anonymize_by_mask_Inr:
  assumes "anonymize_by_mask dflt self b lvl w h = Inr (a, self', w', h')"
  shows "\<exists>se ms. batches h b = Some se \<and> entries se \<noteq> [] \<and> a = next_ref h \<and> self' = self
     \<and> list_all2 masked (map snd (entries se)) ms
     \<and> h' = h\<lparr>batches := (batches h)(a \<mapsto>
              \<lparr>se_vec_type = vec_type self, se_device = device self, se_emb_level = lvl,
               entries = zip (map fst (entries se)) ms,
               genders = genders se, original_speakers = original_speakers se\<rparr>),
             next_ref := Suc a\<rparr>
     \<and> w' = w\<lparr>pos := pos w + sum_list (map (\<lambda>e. length (snd e)) (entries se))\<rparr>"
proof -
  from assms obtain se where se: "batches h b = Some se"
    by (auto simp: anonymize_by_mask_def split: option.splits)
  from assms se obtain ids vs where ml: "mask_loop (device self) (entries se) [] [] w = Inr (ids, vs, w')"
    and s': "self' = self"
    by (auto simp: anonymize_by_mask_def SpeakerEmbeddings_def set_vectors_def Let_def
        split: sum.splits)
  from mask_loop_Inr[OF ml] have ids: "ids = map fst (entries se)"
    and m: "list_all2 masked (map snd (entries se)) vs"
    and w': "w' = w\<lparr>pos := pos w + sum_list (map (\<lambda>e. length (snd e)) (entries se))\<rparr>"
    by auto
  from assms se ml obtain st where st: "torch_stack vs = Inr st"
    by (auto simp: anonymize_by_mask_def SpeakerEmbeddings_def set_vectors_def Let_def
        split: sum.splits)
  from torch_stack_Inr[OF st] have st': "st = vs" "vs \<noteq> []" by auto
  from m st'(2) have ne: "entries se \<noteq> []" by auto
  from assms se ml st st' have a: "a = next_ref h"
    and h': "h' = h\<lparr>batches := (batches h)(a \<mapsto>
              \<lparr>se_vec_type = vec_type self, se_device = device self, se_emb_level = lvl,
               entries = zip ids vs,
               genders = genders se, original_speakers = original_speakers se\<rparr>),
             next_ref := Suc a\<rparr>"
    by (auto simp: anonymize_by_mask_def SpeakerEmbeddings_def set_vectors_def Let_def)
  from se ne a s' m h' ids w' show ?thesis by blast
qed

lemma anonymize_by_mask_returns:
  assumes "batches h b = Some se" "valid_batch D se" "available w (device self)"
  shows "\<exists>a self' w' h'. anonymize_by_mask dflt self b lvl w h = Inr (a, self', w', h')"
proof -
  from mask_loop_returns[OF assms(3)] obtain ids vs w' where
    ml: "mask_loop (device self) (entries se) [] [] w = Inr (ids, vs, w')" by blast
  from mask_loop_Inr[OF ml] have m: "list_all2 masked (map snd (entries se)) vs" by auto
  from assms(2) have ne: "entries se \<noteq> []" and u: "list_all (\<lambda>v. length v = D) (map snd (entries se))"
    by (auto simp: valid_batch_def list_all_iff)
  from m ne have "vs \<noteq> []" by auto
  moreover from list_all2_masked_uniform[OF m u] have "list_all (\<lambda>v. length v = D) vs" .
  ultimately have st: "torch_stack vs = Inr vs" by (rule torch_stack_uniform)
  show ?thesis using assms(1) ml st
    by (simp add: anonymize_by_mask_def SpeakerEmbeddings_def set_vectors_def Let_def)
qed

text \<open>What a call of \<^verbatim>\<open>_anonymize_data_in_scale\<close> that returns has done.\<close>

lemma anonymize_data_in_scale_Inr:
  assumes "stats_per_dim_path self = None" "scaling_ranges_attr self = Ranges rs"
    and "anonymize_data_in_scale dflt self b w h = Inr (a, self', w', h')"
  shows "\<exists>se ns. batches h b = Some se \<and> entries se \<noteq> [] \<and> a = next_ref h \<and> self' = self
     \<and> length ns = length (entries se) \<and> list_all (\<lambda>v. length v = length rs) ns
     \<and> h' = h\<lparr>batches := (batches h)(a \<mapsto>
              \<lparr>se_vec_type = vec_type self, se_device = device self, se_emb_level = dflt,
               entries = zip (map fst (entries se)) ns,
               genders = genders se, original_speakers = original_speakers se\<rparr>),
             next_ref := Suc a\<rparr>
     \<and> w' = w\<lparr>pos := pos w + length (entries se) * length rs\<rparr>"
proof -
  from assms(3) obtain se where se: "batches h b = Some se"
    by (auto simp: anonymize_data_in_scale_def split: option.splits)
  from assms(3) se obtain ids vs self1 where
    il: "in_scale_loop (entries se) [] [] self w = Inr (ids, vs, self1, w')"
    by (auto simp: anonymize_data_in_scale_def SpeakerEmbeddings_def set_vectors_def Let_def
        split: sum.splits)
  from in_scale_loop_Inr[OF assms(1,2) il] have ids: "ids = map fst (entries se)"
    and s1: "self1 = self" and n: "length vs = length (entries se)"
    "list_all (\<lambda>v. length v = length rs) vs"
    and w': "w' = w\<lparr>pos := pos w + length (entries se) * length rs\<rparr>"
    by auto
  from assms(3) se il obtain st where st: "torch_stack vs = Inr st"
    by (auto simp: anonymize_data_in_scale_def SpeakerEmbeddings_def set_vectors_def Let_def
        split: sum.splits)
  from torch_stack_Inr[OF st] have st': "st = vs" "vs \<noteq> []" by auto
  from n(1) st'(2) have ne: "entries se \<noteq> []" by auto
  from assms(3) se il st st' s1 have a: "a = next_ref h" and s': "self' = self"
    and h': "h' = h\<lparr>batches := (batches h)(a \<mapsto>
              \<lparr>se_vec_type = vec_type self, se_device = device self, se_emb_level = dflt,
               entries = zip ids vs,
               genders = genders se, original_speakers = original_speakers se\<rparr>),
             next_ref := Suc a\<rparr>"
    by (auto simp: anonymize_data_in_scale_def SpeakerEmbeddings_def set_vectors_def Let_def)
  from se ne a s' n h' ids w' show ?thesis by blast
qed

lemma anonymize_data_in_scale_returns:
  assumes "stats_per_dim_path self = None" "scaling_ranges_attr self = Ranges rs"
    and "batches h b = Some se" "entries se \<noteq> []" "available w (device self)"
  shows "\<exists>a self' w' h'. anonymize_data_in_scale dflt self b w h = Inr (a, self', w', h')"
proof -
  from in_scale_loop_returns[OF assms(1,2,5)] obtain ids vs self1 w' where
    il: "in_scale_loop (entries se) [] [] self w = Inr (ids, vs, self1, w')" by blast
  from in_scale_loop_Inr[OF assms(1,2) il] have n: "length vs = length (entries se)"
    "list_all (\<lambda>v. length v = length rs) vs" by auto
  from n(1) assms(4) have "vs \<noteq> []" by auto
  then have st: "torch_stack vs = Inr vs" using n(2) by (rule torch_stack_uniform)
  show ?thesis using assms(3) il st
    by (simp add: anonymize_data_in_scale_def SpeakerEmbeddings_def set_vectors_def Let_def)
qed



text \<open>What a call of \<^verbatim>\<open>anonymize_embeddings\<close> that returns has done, on either path.\<close>

lemma anonymize_embeddings_Inr:
  assumes "anonymize_embeddings dflt self b lvl w h = Inr (a, self', w', h')"
  shows "\<exists>r self1 w1 se vs.
       scaling_ranges self w = Inr (r, self1, w1) \<and> self' = self1
     \<and> batches h b = Some se \<and> entries se \<noteq> [] \<and> a = next_ref h
     \<and> length vs = length (entries se)
     \<and> (if truthy r then \<exists>rs. r = Some rs \<and> list_all (\<lambda>v. length v = length rs) vs
         else list_all2 masked (map snd (entries se)) vs)
     \<and> h' = h\<lparr>batches := (batches h)(a \<mapsto>
              \<lparr>se_vec_type = vec_type self, se_device = device self,
               se_emb_level = (if truthy r then dflt else lvl),
               entries = zip (map fst (entries se)) vs,
               genders = genders se, original_speakers = original_speakers se\<rparr>),
             next_ref := Suc a\<rparr>"
proof -
  from assms obtain r self1 w1 where sr: "scaling_ranges self w = Inr (r, self1, w1)"
    by (auto simp: anonymize_embeddings_def split: sum.splits)
  from scaling_ranges_Inr[OF sr] have p: "stats_per_dim_path self1 = None"
    and at: "scaling_ranges_attr self1 = (case r of None \<Rightarrow> PyNone | Some rs \<Rightarrow> Ranges rs)"
    and dv: "device self1 = device self" "vec_type self1 = vec_type self" by auto
  show ?thesis
  proof (cases "truthy r")
    case True
    then obtain rs where rs: "r = Some rs" by (auto simp: truthy_def split: option.splits)
    from assms sr True have c: "anonymize_data_in_scale dflt self1 b
        (w1\<lparr>stdout := stdout w1 @ [''Anonymize vectors in scale!'']\<rparr>) h = Inr (a, self', w', h')"
      by (simp add: anonymize_embeddings_def)
    from at rs have at': "scaling_ranges_attr self1 = Ranges rs" by simp
    from anonymize_data_in_scale_Inr[OF p at' c] obtain se ns where
      "batches h b = Some se" "entries se \<noteq> []" "a = next_ref h" "self' = self1"
      "length ns = length (entries se)" "list_all (\<lambda>v. length v = length rs) ns"
      "h' = h\<lparr>batches := (batches h)(a \<mapsto>
              \<lparr>se_vec_type = vec_type self1, se_device = device self1, se_emb_level = dflt,
               entries = zip (map fst (entries se)) ns,
               genders = genders se, original_speakers = original_speakers se\<rparr>),
             next_ref := Suc a\<rparr>" by blast
    with sr True rs dv show ?thesis by auto
  next
    case False
    from assms sr False have c: "anonymize_by_mask dflt self1 b lvl w1 h = Inr (a, self', w', h')"
      by (simp add: anonymize_embeddings_def)
    from anonymize_by_mask_Inr[OF c] obtain se ms where
      m: "batches h b = Some se" "entries se \<noteq> []" "a = next_ref h" "self' = self1"
      "list_all2 masked (map snd (entries se)) ms"
      "h' = h\<lparr>batches := (batches h)(a \<mapsto>
              \<lparr>se_vec_type = vec_type self1, se_device = device self1, se_emb_level = lvl,
               entries = zip (map fst (entries se)) ms,
               genders = genders se, original_speakers = original_speakers se\<rparr>),
             next_ref := Suc a\<rparr>" by blast
    from m(5) have "length ms = length (entries se)" by (auto dest: list_all2_lengthD)
    with m sr False dv show ?thesis by auto
  qed
qed

lemma anonymize_embeddings_returns:
  assumes "scaling_ranges self w = Inr (r, self1, w1)" "batches h b = Some se"
    and "entries se \<noteq> []" "truthy r \<or> valid_batch D se" "available w (device self)"
  shows "\<exists>a self' w' h'. anonymize_embeddings dflt self b lvl w h = Inr (a, self', w', h')"
proof -
  from scaling_ranges_Inr[OF assms(1)] have p: "stats_per_dim_path self1 = None"
    and at: "scaling_ranges_attr self1 = (case r of None \<Rightarrow> PyNone | Some rs \<Rightarrow> Ranges rs)"
    and av: "available w1 (device self1)" using assms(5) by auto
  show ?thesis
  proof (cases "truthy r")
    case True
    then obtain rs where rs: "r = Some rs" by (auto simp: truthy_def split: option.splits)
    from at rs have at': "scaling_ranges_attr self1 = Ranges rs" by simp
    have av': "available (w1\<lparr>stdout := stdout w1 @ [''Anonymize vectors in scale!'']\<rparr>) (device self1)"
      using av by simp
    from anonymize_data_in_scale_returns[OF p at' assms(2,3) av']
    show ?thesis using assms(1) True by (simp add: anonymize_embeddings_def)
  next
    case False
    with assms(4) have v: "valid_batch D se" by simp
    from anonymize_by_mask_returns[OF assms(2) v av]
    show ?thesis using assms(1) False by (simp add: anonymize_embeddings_def)
  qed
qed

section \<open>The operation on both paths\<close>

lemma masking_anonymizer_ranges:
  "scaling_ranges masking_anonymizer w = Inr (None, masking_anonymizer, w)"
  by (simp add: masking_anonymizer_def init_def scaling_ranges_def Let_def)

lemma calibrated_anonymizer_ranges:
  "\<exists>self1. scaling_ranges (calibrated_anonymizer ''stats.json'') example_world =
     Inr (Some [(3, 4), (1, 2)], self1, example_world\<lparr>opened := [''stats.json'']\<rparr>)"
proof -
  have f: "files example_world ''stats.json'' = Some (JsonObject spec_example)"
    by (simp add: example_world_def)
  have p: "stats_per_dim_path (calibrated_anonymizer ''stats.json'') = Some ''stats.json''"
    by (simp add: calibrated_anonymizer_def init_def Let_def)
  from scaling_ranges_pending[OF p load_example[OF f]] show ?thesis
    by (simp add: example_world_def)
qed

lemma example_facts:
  "batches example_heap 2 = Some example_batch" "valid_batch 3 example_batch"
  "entries example_batch \<noteq> []" "heap_ok example_heap"
  "available example_world (device masking_anonymizer)"
  "available example_world (device (calibrated_anonymizer p))"
  by (simp_all add: example_heap_def example_batch_def valid_batch_def heap_ok_def
      example_world_def masking_anonymizer_def calibrated_anonymizer_def init_def Let_def)



lemma list_all_zip_snd:
  "length ids = length vs \<Longrightarrow> list_all P vs \<Longrightarrow> list_all (\<lambda>e. P (snd e)) (zip ids vs)"
  by (induction ids vs rule: list_induct2) simp_all

text \<open>
  Claim C4, as amended. For a valid batch of vectors of \<open>D\<close> entries and an available
  device, the call returns a batch with as many vectors as the input. On the masking
  path every output vector has \<open>D\<close> entries. On the calibrated path every output vector
  has as many entries as the loaded profile has ranges, which is \<open>D\<close> exactly when the
  profile has \<open>D\<close> ranges.
\<close>

theorem output_dimension:
  assumes "scaling_ranges self w = Inr (r, self1, w1)"
    and "batches h b = Some se" and "valid_batch D se" and "available w (device self)"
  shows "\<exists>out. result_batch (anonymize_embeddings dflt self b lvl w h) = Some out
     \<and> length (entries out) = length (entries se)
     \<and> list_all (\<lambda>e. length (snd e) =
          (case r of None \<Rightarrow> D | Some rs \<Rightarrow> if rs = [] then D else length rs)) (entries out)"
proof -
  from assms(3) have ne: "entries se \<noteq> []"
    and u: "list_all (\<lambda>v. length v = D) (map snd (entries se))"
    by (auto simp: valid_batch_def list_all_iff)
  from assms(3) have tv: "truthy r \<or> valid_batch D se" by simp
  from anonymize_embeddings_returns[OF assms(1,2) ne tv assms(4)]
  obtain a self' w' h' where
    res: "anonymize_embeddings dflt self b lvl w h = Inr (a, self', w', h')" by blast
  from anonymize_embeddings_Inr[OF res] obtain r' self1' w1' se' vs where
    f: "scaling_ranges self w = Inr (r', self1', w1')" "batches h b = Some se'"
    "length vs = length (entries se')"
    "if truthy r' then \<exists>rs. r' = Some rs \<and> list_all (\<lambda>v. length v = length rs) vs
         else list_all2 masked (map snd (entries se')) vs"
    "h' = h\<lparr>batches := (batches h)(a \<mapsto>
              \<lparr>se_vec_type = vec_type self, se_device = device self,
               se_emb_level = (if truthy r' then dflt else lvl),
               entries = zip (map fst (entries se')) vs,
               genders = genders se', original_speakers = original_speakers se'\<rparr>),
             next_ref := Suc a\<rparr>" by blast
  from f(1,2) assms(1,2) have eq: "r' = r" "se' = se" by simp_all
  let ?n = "case r of None \<Rightarrow> D | Some rs \<Rightarrow> if rs = [] then D else length rs"
  let ?out = "\<lparr>se_vec_type = vec_type self, se_device = device self,
               se_emb_level = (if truthy r then dflt else lvl),
               entries = zip (map fst (entries se)) vs,
               genders = genders se, original_speakers = original_speakers se\<rparr>"
  have rb: "result_batch (anonymize_embeddings dflt self b lvl w h) = Some ?out"
    using f(5) eq by (simp add: res result_batch_def)
  have l: "length vs = length (entries se)" using f(3) eq by simp
  have vs: "list_all (\<lambda>v. length v = ?n) vs"
  proof (cases "truthy r")
    case True
    with f(4) eq obtain rs where "r = Some rs" "list_all (\<lambda>v. length v = length rs) vs" by auto
    moreover from True this(1) have "rs \<noteq> []" by (simp add: truthy_def)
    ultimately show ?thesis by simp
  next
    case False
    with f(4) eq have "list_all2 masked (map snd (entries se)) vs" by simp
    from list_all2_masked_uniform[OF this u] have "list_all (\<lambda>v. length v = D) vs" .
    moreover from False have "?n = D" by (auto simp: truthy_def split: option.splits)
    ultimately show ?thesis by simp
  qed
  have "list_all (\<lambda>e. length (snd e) = ?n) (zip (map fst (entries se)) vs)"
    by (rule list_all_zip_snd) (use l vs in simp_all)
  then have "list_all (\<lambda>e. length (snd e) = ?n) (entries ?out)" by simp
  moreover have "length (entries ?out) = length (entries se)" using l by simp
  ultimately show ?thesis using rb by blast
qed

lemma calibrated_default_ranges:
  "\<exists>self1. scaling_ranges (calibrated_anonymizer ''stats_per_dim.json'') default_world =
     Inr (Some [(0, 1)], self1, default_world\<lparr>opened := [''stats_per_dim.json'']\<rparr>)"
  by (simp add: calibrated_anonymizer_def init_def scaling_ranges_def load_scaling_ranges_def
      json_load_def sorted_items_def py_int_0 getitem_def default_world_def Let_def)

lemma default_world_available:
  "available default_world (device (calibrated_anonymizer p))"
  by (simp add: default_world_def calibrated_anonymizer_def init_def Let_def)

lemma map_length_replicate:
  "list_all (\<lambda>v. length v = k) vs \<Longrightarrow> map length vs = replicate (length vs) k"
  by (induction vs) simp_all

text \<open>The batch returned on the calibrated path.\<close>

lemma in_scale_result:
  assumes "scaling_ranges self w = Inr (Some rs, self1, w1)" "rs \<noteq> []"
    and "batches h b = Some se" "entries se \<noteq> []" "available w (device self)"
  shows "\<exists>vs. result_batch (anonymize_embeddings dflt self b lvl w h) =
        Some \<lparr>se_vec_type = vec_type self, se_device = device self, se_emb_level = dflt,
              entries = zip (map fst (entries se)) vs,
              genders = genders se, original_speakers = original_speakers se\<rparr>
     \<and> length vs = length (entries se) \<and> list_all (\<lambda>v. length v = length rs) vs"
proof -
  from assms(2) have t: "truthy (Some rs)" by (simp add: truthy_def)
  then have tv: "truthy (Some rs) \<or> valid_batch 0 se" by simp
  from anonymize_embeddings_returns[OF assms(1,3,4) tv assms(5)]
  obtain a self' w' h' where
    res: "anonymize_embeddings dflt self b lvl w h = Inr (a, self', w', h')" by blast
  from anonymize_embeddings_Inr[OF res] obtain r' self1' w1' se' vs where
    f: "scaling_ranges self w = Inr (r', self1', w1')" "batches h b = Some se'"
    "length vs = length (entries se')"
    "if truthy r' then \<exists>rs. r' = Some rs \<and> list_all (\<lambda>v. length v = length rs) vs
         else list_all2 masked (map snd (entries se')) vs"
    "h' = h\<lparr>batches := (batches h)(a \<mapsto>
              \<lparr>se_vec_type = vec_type self, se_device = device self,
               se_emb_level = (if truthy r' then dflt else lvl),
               entries = zip (map fst (entries se')) vs,
               genders = genders se', original_speakers = original_speakers se'\<rparr>),
             next_ref := Suc a\<rparr>" by blast
  from f(1,2) assms(1,3) have eq: "r' = Some rs" "se' = se" by simp_all
  have rb: "result_batch (anonymize_embeddings dflt self b lvl w h) =
        Some \<lparr>se_vec_type = vec_type self, se_device = device self, se_emb_level = dflt,
              entries = zip (map fst (entries se)) vs,
              genders = genders se, original_speakers = original_speakers se\<rparr>"
    using f(5) eq t by (simp add: res result_batch_def)
  from f(3,4) eq t have "length vs = length (entries se)" "list_all (\<lambda>v. length v = length rs) vs"
    by simp_all
  with rb show ?thesis by blast
qed

lemma in_scale_dims:
  assumes "scaling_ranges self w = Inr (Some rs, self1, w1)" "rs \<noteq> []"
    and "batches h b = Some se" "entries se \<noteq> []" "available w (device self)"
  shows "map_option dims (result_batch (anonymize_embeddings dflt self b lvl w h)) =
         Some (replicate (length (entries se)) (length rs))"
proof -
  from in_scale_result[OF assms] obtain vs where
    rb: "result_batch (anonymize_embeddings dflt self b lvl w h) =
        Some \<lparr>se_vec_type = vec_type self, se_device = device self, se_emb_level = dflt,
              entries = zip (map fst (entries se)) vs,
              genders = genders se, original_speakers = original_speakers se\<rparr>"
    and l: "length vs = length (entries se)" and a: "list_all (\<lambda>v. length v = length rs) vs"
    by blast
  have "map (\<lambda>e. length (snd e)) (zip (map fst (entries se)) vs) = map length (map snd (zip (map fst (entries se)) vs))"
    by (simp add: comp_def)
  also have "\<dots> = map length vs" using l by simp
  also have "\<dots> = replicate (length (entries se)) (length rs)"
    using map_length_replicate[OF a] l by simp
  finally show ?thesis using rb by (simp add: dims_def)
qed

theorem output_dimension_witness:
  "\<exists>out. result_batch (anonymize_embeddings ''spk'' masking_anonymizer 2 ''utt''
                        example_world example_heap) = Some out
     \<and> length (entries out) = length (entries example_batch)
     \<and> list_all (\<lambda>e. length (snd e) = 3) (entries out)"
  using output_dimension[OF masking_anonymizer_ranges example_facts(1,2,5),
      where dflt = "''spk''" and lvl = "''utt''"] by simp

text \<open>
  The claim C4 as stated fails on the calibrated path: with a profile of one range and a
  valid batch of vectors of three entries, the returned vectors have one entry.
\<close>

theorem output_dimension_counterexample:
  "valid_batch 3 example_batch \<and> batches example_heap 2 = Some example_batch
   \<and> map_option dims (result_batch (anonymize_embeddings ''spk''
        (calibrated_anonymizer ''stats_per_dim.json'') 2 ''spk'' default_world example_heap)) =
      Some [1, 1]"
proof -
  from calibrated_default_ranges obtain self1 where
    r: "scaling_ranges (calibrated_anonymizer ''stats_per_dim.json'') default_world =
        Inr (Some [(0, 1)], self1, default_world\<lparr>opened := [''stats_per_dim.json'']\<rparr>)" by blast
  from in_scale_dims[OF r _ example_facts(1,3) default_world_available,
      where dflt = "''spk''" and lvl = "''spk''"]
  show ?thesis using example_facts(1,2) by (simp add: example_batch_def numeral_2_eq_2)
qed




text \<open>The batch returned on the masking path.\<close>

lemma masking_result:
  assumes "scaling_ranges self w = Inr (r, self1, w1)" "\<not> truthy r"
    and "batches h b = Some se" "valid_batch D se" "available w (device self)"
  shows "\<exists>vs. result_batch (anonymize_embeddings dflt self b lvl w h) =
        Some \<lparr>se_vec_type = vec_type self, se_device = device self, se_emb_level = lvl,
              entries = zip (map fst (entries se)) vs,
              genders = genders se, original_speakers = original_speakers se\<rparr>
     \<and> length vs = length (entries se)"
proof -
  from assms(4) have ne: "entries se \<noteq> []" by (simp add: valid_batch_def)
  from assms(4) have tv: "truthy r \<or> valid_batch D se" by simp
  from anonymize_embeddings_returns[OF assms(1,3) ne tv assms(5)]
  obtain a self' w' h' where
    res: "anonymize_embeddings dflt self b lvl w h = Inr (a, self', w', h')" by blast
  from anonymize_embeddings_Inr[OF res] obtain r' self1' w1' se' vs where
    f: "scaling_ranges self w = Inr (r', self1', w1')" "batches h b = Some se'"
    "length vs = length (entries se')"
    "h' = h\<lparr>batches := (batches h)(a \<mapsto>
              \<lparr>se_vec_type = vec_type self, se_device = device self,
               se_emb_level = (if truthy r' then dflt else lvl),
               entries = zip (map fst (entries se')) vs,
               genders = genders se', original_speakers = original_speakers se'\<rparr>),
             next_ref := Suc a\<rparr>" by blast
  from f(1,2) assms(1,3) have eq: "r' = r" "se' = se" by simp_all
  have "result_batch (anonymize_embeddings dflt self b lvl w h) =
        Some \<lparr>se_vec_type = vec_type self, se_device = device self, se_emb_level = lvl,
              entries = zip (map fst (entries se)) vs,
              genders = genders se, original_speakers = original_speakers se\<rparr>"
    using f(4) eq assms(2) by (simp add: res result_batch_def)
  with f(3) eq show ?thesis by blast
qed



text \<open>
  Claim C7. \<^verbatim>\<open>_anonymize_data_in_scale\<close> is not given \<open>emb_level\<close> and constructs the output
  batch without it: called with \<^verbatim>\<open>emb_level="utt"\<close> on the calibrated path, the output
  batch carries the constructor's own default level, whatever that is, while the same
  call on the masking path carries \<^verbatim>\<open>"utt"\<close>.
\<close>

theorem in_scale_ignores_emb_level:
  "map_option se_emb_level (result_batch (anonymize_embeddings dflt
      (calibrated_anonymizer ''stats.json'') 2 ''utt'' example_world example_heap)) = Some dflt
   \<and> map_option se_emb_level (result_batch (anonymize_embeddings dflt
      masking_anonymizer 2 ''utt'' example_world example_heap)) = Some ''utt''"
proof
  from calibrated_anonymizer_ranges obtain self1 where
    r: "scaling_ranges (calibrated_anonymizer ''stats.json'') example_world =
        Inr (Some [(3, 4), (1, 2)], self1, example_world\<lparr>opened := [''stats.json'']\<rparr>)" by blast
  from in_scale_result[OF r _ example_facts(1,3,6), where dflt = dflt and lvl = "''utt''"]
  show "map_option se_emb_level (result_batch (anonymize_embeddings dflt
      (calibrated_anonymizer ''stats.json'') 2 ''utt'' example_world example_heap)) = Some dflt"
    by auto
next
  have nt: "\<not> truthy None" by (simp add: truthy_def)
  from masking_result[OF masking_anonymizer_ranges nt example_facts(1,2,5),
      where dflt = dflt and lvl = "''utt''"]
  show "map_option se_emb_level (result_batch (anonymize_embeddings dflt
      masking_anonymizer 2 ''utt'' example_world example_heap)) = Some ''utt''"
    by auto
qed

text \<open>
  Claim C9. Whenever the call returns, the returned batch lives at a reference that held
  no batch before, different from the input's; every batch that existed before, the
  input batch among them, is unchanged (identifiers, vectors and label references), and
  no label list is changed.
\<close>

theorem input_batch_not_mutated:
  assumes "heap_ok h"
    and "anonymize_embeddings dflt self b lvl w h = Inr (a, self', w', h')"
  shows "batches h a = None \<and> a \<noteq> b \<and> batches h' a \<noteq> None
     \<and> (\<forall>c. c \<noteq> a \<longrightarrow> batches h' c = batches h c)
     \<and> batches h' b = batches h b \<and> lists h' = lists h \<and> heap_ok h'"
proof -
  from anonymize_embeddings_Inr[OF assms(2)] obtain r' se vs where
    f: "batches h b = Some se" "a = next_ref h"
    "h' = h\<lparr>batches := (batches h)(a \<mapsto>
              \<lparr>se_vec_type = vec_type self, se_device = device self,
               se_emb_level = (if truthy r' then dflt else lvl),
               entries = zip (map fst (entries se)) vs,
               genders = genders se, original_speakers = original_speakers se\<rparr>),
             next_ref := Suc a\<rparr>" by blast
  from assms(1) f(2) have fresh: "batches h a = None" by (simp add: heap_ok_def)
  with f(1) have ab: "a \<noteq> b" by auto
  have new: "batches h' a \<noteq> None" using f(3) by simp
  have frame: "\<forall>c. c \<noteq> a \<longrightarrow> batches h' c = batches h c" using f(3) by simp
  with ab have same: "batches h' b = batches h b" by simp
  have l: "lists h' = lists h" using f(3) by simp
  have ok: "heap_ok h'" using assms(1) f(2,3) by (simp add: heap_ok_def)
  from fresh ab new frame same l ok show ?thesis by blast
qed

theorem input_batch_not_mutated_witness:
  "\<exists>a self' w' h'.
     anonymize_embeddings ''spk'' masking_anonymizer 2 ''utt'' example_world example_heap =
       Inr (a, self', w', h')
     \<and> batches example_heap a = None \<and> a \<noteq> 2 \<and> batches h' a \<noteq> None
     \<and> batches h' 2 = Some example_batch \<and> lists h' = lists example_heap"
proof -
  have tv: "truthy None \<or> valid_batch 3 example_batch" using example_facts(2) by simp
  from anonymize_embeddings_returns[OF masking_anonymizer_ranges example_facts(1,3) tv
      example_facts(5), where dflt = "''spk''" and lvl = "''utt''"]
  obtain a self' w' h' where
    res: "anonymize_embeddings ''spk'' masking_anonymizer 2 ''utt''
          example_world example_heap = Inr (a, self', w', h')" by blast
  from input_batch_not_mutated[OF example_facts(4) res] res example_facts(1)
  show ?thesis by auto
qed

end
